theory Spec2Isabelle
  imports Complex_Main
begin

section \<open>Strings as the response repair uses them\<close>

text \<open>
  A Python \<open>str\<close> is modelled as a \<open>string\<close>, one \<open>char\<close> per code point below 256.
  \<open>isspace\<close> is \<open>str.isspace\<close> on that range: the characters \<open>str.strip()\<close> removes.
\<close>

definition isspace :: "char \<Rightarrow> bool" where
  "isspace c = (of_char c \<in> {9, 10, 11, 12, 13, 28, 29, 30, 31, 32, 133, 160 :: nat})"

definition lstrip :: "string \<Rightarrow> string" where
  "lstrip s = dropWhile isspace s"

definition rstrip :: "string \<Rightarrow> string" where
  "rstrip s = rev (dropWhile isspace (rev s))"

definition strip :: "string \<Rightarrow> string" where
  "strip s = rstrip (lstrip s)"

definition startswith :: "string \<Rightarrow> string \<Rightarrow> bool" where
  "startswith s p = (take (length p) s = p)"

definition endswith :: "string \<Rightarrow> string \<Rightarrow> bool" where
  "endswith s p = (length p \<le> length s \<and> drop (length s - length p) s = p)"

text \<open>\<open>s.replace(old, new, 1)\<close>: the leftmost occurrence of \<open>old\<close> is replaced.\<close>

fun replace_first :: "string \<Rightarrow> string \<Rightarrow> string \<Rightarrow> string" where
  "replace_first old new [] = (if old = [] then new else [])"
| "replace_first old new (c # cs) =
     (if startswith (c # cs) old then new @ drop (length old) (c # cs)
      else c # replace_first old new cs)"

definition fence_open :: string where
  "fence_open = ''```json''"

definition fence_close :: string where
  "fence_close = ''```''"

definition newline :: string where
  "newline = [CHR 0x0A]"

text \<open>
  Lines 78 to 84 of \<open>app.py\<close>, up to the call of \<open>json.loads\<close>: the text handed to the
  JSON parser. \<open>response_text[:-3]\<close> is \<open>take (length t - 3) t\<close>.
\<close>

definition repair_text :: "string \<Rightarrow> string" where
  "repair_text response =
     (let t0 = strip response;
          t1 = (if startswith t0 fence_open then replace_first fence_open [] t0 else t0);
          t2 = (if endswith t1 fence_close then take (length t1 - 3) t1 else t1)
      in strip t2)"

text \<open>
  A response wrapped in a fenced code block: the tag line, the payload, the closing fence.
\<close>

definition fence_wrap :: "string \<Rightarrow> string" where
  "fence_wrap s = fence_open @ newline @ s @ newline @ fence_close"

section \<open>JSON values and Python exceptions\<close>

text \<open>
  What \<open>json.loads\<close> returns. A number is an exact rational: the rounding of binary
  floating point, infinities and NaN are outside the model. A \<open>dict\<close> is an association
  list read with \<open>map_of\<close>. Python's \<open>None\<close> is \<open>JNull\<close>.
\<close>

datatype json =
    JNull
  | JBool bool
  | JNum rat
  | JStr string
  | JArr "json list"
  | JObj "(string \<times> json) list"

datatype exn =
    AttributeError
  | TypeError
  | ValueError
  | KeyError
  | IndexError
  | ReaderError string
  | CompletionError string

text \<open>Python truthiness, as \<open>if x:\<close> and \<open>and\<close> test it.\<close>

fun truthy :: "json \<Rightarrow> bool" where
  "truthy JNull = False"
| "truthy (JBool b) = b"
| "truthy (JNum r) = (r \<noteq> 0)"
| "truthy (JStr s) = (s \<noteq> [])"
| "truthy (JArr xs) = (xs \<noteq> [])"
| "truthy (JObj kvs) = (kvs \<noteq> [])"

text \<open>\<open>d.get(key, default)\<close> on a \<open>dict\<close>.\<close>

definition dict_get :: "(string \<times> json) list \<Rightarrow> string \<Rightarrow> json \<Rightarrow> json" where
  "dict_get kvs k d = (case map_of kvs k of None \<Rightarrow> d | Some v \<Rightarrow> v)"

section \<open>External collaborators\<close>

text \<open>
  The PDF reader, the completion client and \<open>json.loads\<close> are libraries: they are
  parameters of the model. The reader returns the page texts or raises; the client takes the
  API key and the prompt and returns the completion text or raises; \<open>json.loads\<close> returns
  the value or raises \<open>JSONDecodeError\<close> with a message (\<open>Inl\<close>).
\<close>

record collab =
  pdf_reader :: "string \<Rightarrow> exn + string list"
  llm_complete :: "string \<Rightarrow> string \<Rightarrow> exn + string"
  json_loads :: "string \<Rightarrow> string + json"

type_synonym environ = "string \<rightharpoonup> string"

section \<open>Extraction (\<open>app.py\<close>, lines 18 to 89)\<close>

text \<open>What the interface shows. Static headings and the two name inputs are left out.\<close>

datatype person = Person1 | Person2

datatype ui =
    St_error string
  | St_text string
  | Invoice_id json
  | Invoice_date json
  | Item_name json
  | Item_price rat
  | Person_totals rat rat
  | Total_expense rat
  | Split_amount rat
  | Owes person person rat
  | Perfectly_split

definition extract_text_from_pdf :: "collab \<Rightarrow> string \<Rightarrow> exn + string" where
  "extract_text_from_pdf c pdf_path =
     (case pdf_reader c pdf_path of
        Inl e \<Rightarrow> Inl e
      | Inr documents \<Rightarrow> Inr (concat (map (\<lambda>doc. doc @ newline @ newline) documents)))"

definition prompt_lines :: "string list" where
  \<open>prompt_lines =
    [''    Extract the following information from the invoice text and return it as JSON:'',
     ''    1. The invoice ID (a unique identifier, often a number)'',
     ''    2. The date of the invoice'',
     ''    3. A list of line items, each with:'',
     ''       - Item name'',
     ''       - Total price'',
     '''',
     ''    Return the data in this format:'',
     ''    {"invoice_id": "the_extracted_id",'',
     ''     "date": "YYYY-MM-DD",'',
     ''     "line_items": ['',
     ''        {"item_name": "First item", "total_price": 100.0},'',
     ''        {"item_name": "Second item", "total_price": 200.0}'',
     ''      ]'',
     ''    }'',
     '''',
     ''    Text:'']\<close>

definition build_prompt :: "string \<Rightarrow> string" where
  "build_prompt text =
     newline @ concat (map (\<lambda>l. l @ newline) prompt_lines) @ ''    '' @ text @ newline @ ''    ''"

record extraction =
  result :: "exn + json"
  shown :: "ui list"
  calls :: nat

definition key_missing :: extraction where
  "key_missing =
     \<lparr>result = Inr JNull,
      shown = [St_error ''OpenRouter API key not found. Please set it in the .env file.''],
      calls = 0\<rparr>"

text \<open>
  \<open>extract_invoice_data\<close>: the result (\<open>Inl\<close> an exception that leaves the function),
  what it shows, and how often the completion client was called.
\<close>

definition extract_invoice_data :: "collab \<Rightarrow> environ \<Rightarrow> string \<Rightarrow> extraction" where
  "extract_invoice_data c env pdf_path =
     (case extract_text_from_pdf c pdf_path of
        Inl e \<Rightarrow> \<lparr>result = Inl e, shown = [], calls = 0\<rparr>
      | Inr text \<Rightarrow>
          (case env ''OPENROUTER_API_KEY'' of
             None \<Rightarrow> key_missing
           | Some api_key \<Rightarrow>
               if api_key = [] then key_missing
               else
                 (case llm_complete c api_key (build_prompt text) of
                    Inl e \<Rightarrow> \<lparr>result = Inl e, shown = [], calls = 1\<rparr>
                  | Inr response \<Rightarrow>
                      (case json_loads c (repair_text response) of
                         Inl msg \<Rightarrow>
                           \<lparr>result = Inr JNull,
                            shown = [St_error (''Error parsing LLM response: '' @ msg),
                                     St_text response],
                            calls = 1\<rparr>
                       | Inr invoice \<Rightarrow> \<lparr>result = Inr invoice, shown = [], calls = 1\<rparr>))))"

section \<open>Session state and the processing action (\<open>app.py\<close>, lines 97 to 124)\<close>

record session =
  invoice_data :: json
  person1_items :: "nat list"
  person2_items :: "nat list"

definition init_session :: session where
  "init_session = \<lparr>invoice_data = JNull, person1_items = [], person2_items = []\<rparr>"

text \<open>
  What one run of the script reads from the page: the uploaded file, whether the
  process button was pressed, and the value of each row's two checkboxes.
\<close>

record inputs =
  uploaded_file :: "string option"
  process_clicked :: bool
  person1_checked :: "nat \<Rightarrow> bool"
  person2_checked :: "nat \<Rightarrow> bool"

text \<open>
  A run of the script, or a part of one: the session state it leaves, what it showed, the
  exception that ended it if one did, and the number of completion calls.
\<close>

record run =
  final :: session
  out :: "ui list"
  raised :: "exn option"
  llm_calls :: nat

text \<open>
  The body of \<open>if st.button("Process Invoice")\<close>. An exception inside
  \<open>extract_invoice_data\<close> leaves the handler before anything is assigned.
\<close>

definition process_invoice :: "collab \<Rightarrow> environ \<Rightarrow> string \<Rightarrow> session \<Rightarrow> run" where
  "process_invoice c env pdf_path s =
     (let ex = extract_invoice_data c env pdf_path
      in case result ex of
           Inl e \<Rightarrow> \<lparr>final = s, out = shown ex, raised = Some e, llm_calls = calls ex\<rparr>
         | Inr v \<Rightarrow>
             \<lparr>final = s\<lparr>invoice_data := v, person1_items := [], person2_items := []\<rparr>,
              out = shown ex, raised = None, llm_calls = calls ex\<rparr>)"

section \<open>Allocation and settlement (\<open>app.py\<close>, lines 127 to 229)\<close>

text \<open>\<open>f"{price:.2f}"\<close> accepts a number or a \<open>bool\<close> and raises on anything else.\<close>

fun format_2f :: "json \<Rightarrow> exn + rat" where
  "format_2f (JNum r) = Inr r"
| "format_2f (JBool b) = Inr (if b then 1 else 0)"
| "format_2f (JStr s) = Inl ValueError"
| "format_2f v = Inl TypeError"

text \<open>Lines 186 to 189, and again 191 to 194; \<open>remove1\<close> is \<open>list.remove\<close>.\<close>

definition update_items :: "bool \<Rightarrow> nat \<Rightarrow> nat list \<Rightarrow> nat list" where
  "update_items checked i items =
     (if checked \<and> i \<notin> set items then items @ [i]
      else if \<not> checked \<and> i \<in> set items then remove1 i items
      else items)"

text \<open>
  The loop over the rows, from row \<open>i\<close> on: the exception that stopped it if one did,
  the two lists as it leaves them, and what it showed.
\<close>

fun table_rows ::
  "(nat \<Rightarrow> bool) \<Rightarrow> (nat \<Rightarrow> bool) \<Rightarrow> nat \<Rightarrow> json list \<Rightarrow> nat list \<Rightarrow> nat list
     \<Rightarrow> exn option \<times> nat list \<times> nat list \<times> ui list" where
  "table_rows c1 c2 i [] p1 p2 = (None, p1, p2, [])"
| "table_rows c1 c2 i (item # rest) p1 p2 =
     (case item of
        JObj kvs \<Rightarrow>
          (let item_name = dict_get kvs ''item_name'' (JStr ''Unknown item'');
               price = dict_get kvs ''total_price'' (JNum 0)
           in case format_2f price of
                Inl e \<Rightarrow> (Some e, p1, p2, [Item_name item_name])
              | Inr pr \<Rightarrow>
                  (case table_rows c1 c2 (Suc i) rest
                          (update_items (c1 i) i p1) (update_items (c2 i) i p2) of
                     (e, q1, q2, shown_rows) \<Rightarrow>
                       (e, q1, q2, Item_name item_name # Item_price pr # shown_rows)))
      | _ \<Rightarrow> (Some AttributeError, p1, p2, []))"

text \<open>\<open>item['total_price']\<close> as a summand of \<open>sum\<close>.\<close>

fun subscript_total_price :: "json \<Rightarrow> exn + rat" where
  "subscript_total_price (JObj kvs) =
     (case map_of kvs ''total_price'' of
        None \<Rightarrow> Inl KeyError
      | Some (JNum r) \<Rightarrow> Inr r
      | Some (JBool b) \<Rightarrow> Inr (if b then 1 else 0)
      | Some _ \<Rightarrow> Inl TypeError)"
| "subscript_total_price v = Inl TypeError"

text \<open>
  \<open>sum(line_items[i]['total_price'] for i in idxs)\<close>, accumulating from the left as
  \<open>sum\<close> does; an index past the end raises \<open>IndexError\<close>.
\<close>

fun sum_prices_from :: "rat \<Rightarrow> json list \<Rightarrow> nat list \<Rightarrow> exn + rat" where
  "sum_prices_from acc line_items [] = Inr acc"
| "sum_prices_from acc line_items (i # idxs) =
     (if i < length line_items then
        (case subscript_total_price (line_items ! i) of
           Inl e \<Rightarrow> Inl e
         | Inr p \<Rightarrow> sum_prices_from (acc + p) line_items idxs)
      else Inl IndexError)"

definition sum_prices :: "json list \<Rightarrow> nat list \<Rightarrow> exn + rat" where
  "sum_prices line_items idxs = sum_prices_from 0 line_items idxs"

text \<open>Lines 220 to 227: \<open>Owes payer payee amount\<close>, or the perfect split.\<close>

definition who_owes :: "rat \<Rightarrow> rat \<Rightarrow> rat \<Rightarrow> ui" where
  "who_owes person1_total person2_total split_amount =
     (if person1_total > person2_total then Owes Person2 Person1 (person1_total - split_amount)
      else if person2_total > person1_total then
        Owes Person1 Person2 (person2_total - split_amount)
      else Perfectly_split)"

text \<open>Lines 211 to 227.\<close>

definition payment_summary :: "rat \<Rightarrow> rat \<Rightarrow> ui list" where
  "payment_summary person1_total person2_total =
     (let total_expense = person1_total + person2_total;
          split_amount = total_expense / 2
      in [Total_expense total_expense, Split_amount split_amount,
          who_owes person1_total person2_total split_amount])"

text \<open>
  Lines 163 to 227 for a \<open>line_items\<close> that is a list: the rows, the two totals, the
  payment summary. The two lists are session state, so what the loop did to them before an
  exception stays.
\<close>

definition split_items :: "inputs \<Rightarrow> json list \<Rightarrow> session \<Rightarrow> session \<times> ui list \<times> exn option" where
  "split_items inp line_items s =
     (case table_rows (person1_checked inp) (person2_checked inp) 0 line_items
             (person1_items s) (person2_items s) of
        (e, p1, p2, shown_rows) \<Rightarrow>
          (let s' = s\<lparr>person1_items := p1, person2_items := p2\<rparr>
           in case e of
                Some x \<Rightarrow> (s', shown_rows, Some x)
              | None \<Rightarrow>
                  (case sum_prices line_items p1 of
                     Inl x \<Rightarrow> (s', shown_rows, Some x)
                   | Inr person1_total \<Rightarrow>
                       (case sum_prices line_items p2 of
                          Inl x \<Rightarrow> (s', shown_rows, Some x)
                        | Inr person2_total \<Rightarrow>
                            (s',
                             shown_rows @ [Person_totals person1_total person2_total]
                               @ payment_summary person1_total person2_total,
                             None)))))"

definition no_line_items :: "ui list" where
  "no_line_items = [St_error ''No line items found in the invoice.'']"

text \<open>
  Lines 127 to 229. \<open>invoice_data.get\<close> exists on a \<open>dict\<close> only. A truthy
  \<open>line_items\<close> that is not a list stops the loop at once: a number or \<open>True\<close> cannot be
  enumerated (\<open>TypeError\<close>), and the first element of a non-empty string or \<open>dict\<close> is a
  string, which has no \<open>get\<close> (\<open>AttributeError\<close>).
\<close>

definition display :: "inputs \<Rightarrow> session \<Rightarrow> session \<times> ui list \<times> exn option" where
  "display inp s =
     (if truthy (invoice_data s) then
        (case invoice_data s of
           JObj kvs \<Rightarrow>
             (let header = [Invoice_id (dict_get kvs ''invoice_id'' (JStr ''N/A'')),
                            Invoice_date (dict_get kvs ''date'' (JStr ''N/A''))]
              in case map_of kvs ''line_items'' of
                   None \<Rightarrow> (s, header @ no_line_items, None)
                 | Some v \<Rightarrow>
                     if truthy v then
                       (case v of
                          JArr line_items \<Rightarrow>
                            (case split_items inp line_items s of
                               (s', shown_items, e) \<Rightarrow> (s', header @ shown_items, e))
                        | JStr _ \<Rightarrow> (s, header, Some AttributeError)
                        | JObj _ \<Rightarrow> (s, header, Some AttributeError)
                        | _ \<Rightarrow> (s, header, Some TypeError))
                     else (s, header @ no_line_items, None))
         | _ \<Rightarrow> (s, [], Some AttributeError))
      else (s, [], None))"

text \<open>
  One run of the script from top to bottom: the processing action when a file is uploaded
  and the button was pressed, then the display. An exception ends the run.
\<close>

definition script_run :: "collab \<Rightarrow> environ \<Rightarrow> inputs \<Rightarrow> session \<Rightarrow> run" where
  "script_run c env inp s =
     (let r = (case uploaded_file inp of
                 None \<Rightarrow> \<lparr>final = s, out = [], raised = None, llm_calls = 0\<rparr>
               | Some pdf \<Rightarrow>
                   if process_clicked inp then process_invoice c env pdf s
                   else \<lparr>final = s, out = [], raised = None, llm_calls = 0\<rparr>)
      in case raised r of
           Some e \<Rightarrow> r
         | None \<Rightarrow>
             (case display inp (final r) of
                (s', shown_page, e) \<Rightarrow>
                  \<lparr>final = s', out = out r @ shown_page, raised = e, llm_calls = llm_calls r\<rparr>))"

text \<open>The session after a sequence of runs, each with its own collaborators and inputs.\<close>

fun runs :: "(collab \<times> environ \<times> inputs) list \<Rightarrow> session \<Rightarrow> session" where
  "runs [] s = s"
| "runs ((c, env, inp) # rest) s = runs rest (final (script_run c env inp s))"

text \<open>The line items the allocation indexes: the list of the stored invoice, if it has one.\<close>

definition line_items_of :: "json \<Rightarrow> json list" where
  "line_items_of invoice =
     (case invoice of
        JObj kvs \<Rightarrow> (case map_of kvs ''line_items'' of Some (JArr xs) \<Rightarrow> xs | _ \<Rightarrow> [])
      | _ \<Rightarrow> [])"

section \<open>Notions used in the statements\<close>

text \<open>What every run keeps true of the two lists.\<close>

definition valid_allocation :: "session \<Rightarrow> bool" where
  "valid_allocation s =
     (distinct (person1_items s) \<and> distinct (person2_items s)
      \<and> (\<forall>i \<in> set (person1_items s) \<union> set (person2_items s).
            i < length (line_items_of (invoice_data s))))"






section \<open>Example data\<close>

text \<open>
  The invoice of the specification's scenarios, a table standing in for \<open>json.loads\<close>
  on the example responses, and collaborators that answer with them.
\<close>

definition scenario_json :: string where
  \<open>scenario_json = ''{"invoice_id":"123","date":"2024-01-05","line_items":[{"item_name":"Widget","total_price":100.0},{"item_name":"Gadget","total_price":50.0}]}''\<close>

definition scenario_invoice :: json where
  "scenario_invoice =
     JObj [(''invoice_id'', JStr ''123''), (''date'', JStr ''2024-01-05''),
           (''line_items'',
            JArr [JObj [(''item_name'', JStr ''Widget''), (''total_price'', JNum 100)],
                  JObj [(''item_name'', JStr ''Gadget''), (''total_price'', JNum 50)]])]"

definition widget_gadget :: "json list" where
  "widget_gadget =
     [JObj [(''item_name'', JStr ''Widget''), (''total_price'', JNum 100)],
      JObj [(''item_name'', JStr ''Gadget''), (''total_price'', JNum 50)]]"


definition table_loads :: "string \<Rightarrow> string + json" where
  "table_loads t =
     (if strip t = scenario_json then Inr scenario_invoice
      else if strip t = ''{}'' then Inr (JObj [])
      else if strip t = ''[1]'' then Inr (JArr [JNum 1])
      else Inl ''Expecting value: line 1 column 1 (char 0)'')"

definition one_page :: "string \<Rightarrow> exn + string list" where
  "one_page pdf_path = Inr [''Invoice #123, 2024-01-05, Widget 100.00, Gadget 50.00'']"

definition answer_fenced :: "string \<Rightarrow> string \<Rightarrow> exn + string" where
  "answer_fenced api_key prompt = Inr (fence_wrap scenario_json)"



definition answer_timeout :: "string \<Rightarrow> string \<Rightarrow> exn + string" where
  "answer_timeout api_key prompt = Inl (CompletionError ''connection timed out'')"

definition fenced_collab :: collab where
  "fenced_collab = \<lparr>pdf_reader = one_page, llm_complete = answer_fenced, json_loads = table_loads\<rparr>"



definition failing_collab :: collab where
  "failing_collab =
     \<lparr>pdf_reader = one_page, llm_complete = answer_timeout, json_loads = table_loads\<rparr>"

definition env_with_key :: environ where
  "env_with_key = [''OPENROUTER_API_KEY'' \<mapsto> ''sk-or-test'']"


definition no_row :: "nat \<Rightarrow> bool" where
  "no_row i = False"

definition row0 :: "nat \<Rightarrow> bool" where
  "row0 i = (i = 0)"

definition row1 :: "nat \<Rightarrow> bool" where
  "row1 i = (i = 1)"

definition press_process :: inputs where
  "press_process =
     \<lparr>uploaded_file = Some ''invoice.pdf'', process_clicked = True,
      person1_checked = no_row, person2_checked = no_row\<rparr>"

definition tick_row0_both :: inputs where
  "tick_row0_both =
     \<lparr>uploaded_file = Some ''invoice.pdf'', process_clicked = False,
      person1_checked = row0, person2_checked = row0\<rparr>"

definition tick_row0_row1 :: inputs where
  "tick_row0_row1 =
     \<lparr>uploaded_file = Some ''invoice.pdf'', process_clicked = False,
      person1_checked = row0, person2_checked = row1\<rparr>"

section \<open>Stripping and the fence markers\<close>

lemma isspace_tick [simp]: "\<not> isspace CHR ''`''"
  by (simp add: isspace_def)

lemma isspace_nl [simp]: "isspace CHR 0x0A"
  by (simp add: isspace_def)

lemma rstrip_space: "isspace c \<Longrightarrow> rstrip (s @ [c]) = rstrip s"
  by (simp add: rstrip_def)

lemma rstrip_lstrip_snoc:
  assumes "isspace c" shows "rstrip (lstrip (s @ [c])) = rstrip (lstrip s)"
proof (cases "\<forall>x\<in>set s. isspace x")
  case True
  then have "lstrip (s @ [c]) = []" "lstrip s = []" using assms by (simp_all add: lstrip_def)
  then show ?thesis by simp
next
  case False
  then have "lstrip (s @ [c]) = lstrip s @ [c]" by (auto simp: lstrip_def dropWhile_append)
  then show ?thesis using assms by (simp add: rstrip_space)
qed

lemma rstrip_prefix: "\<exists>r. t = rstrip t @ r"
proof -
  have "rev t = takeWhile isspace (rev t) @ dropWhile isspace (rev t)" by simp
  then have "t = rev (dropWhile isspace (rev t)) @ rev (takeWhile isspace (rev t))"
    by (metis rev_append rev_rev_ident)
  then show ?thesis unfolding rstrip_def by blast
qed

lemma lstrip_rstrip_lstrip: "lstrip (rstrip (lstrip s)) = rstrip (lstrip s)"
proof (cases "rstrip (lstrip s)")
  case Nil then show ?thesis by (simp add: lstrip_def)
next
  case (Cons c cs)
  obtain r where r: "lstrip s = rstrip (lstrip s) @ r" using rstrip_prefix by blast
  then have "dropWhile isspace s = c # (cs @ r)" using Cons by (simp add: lstrip_def)
  then have "\<not> isspace c" by (metis hd_dropWhile list.sel(1) list.distinct(1))
  then show ?thesis using Cons by (simp add: lstrip_def)
qed

lemma rstrip_idem: "rstrip (rstrip t) = rstrip t"
  by (simp add: rstrip_def)

lemma strip_idem: "strip (strip s) = strip s"
  by (simp add: strip_def lstrip_rstrip_lstrip rstrip_idem)

lemma replace_first_prefix: "replace_first p [] (p @ r) = r"
proof (cases p)
  case Nil then show ?thesis by (cases r) (simp_all add: startswith_def)
next
  case (Cons a q) then show ?thesis by (simp add: startswith_def)
qed

lemma strip_fence_wrap: "strip (fence_wrap s) = fence_wrap s"
  by (simp add: strip_def lstrip_def rstrip_def fence_wrap_def fence_open_def fence_close_def)

lemma strip_newlines: "strip (newline @ s @ newline) = strip s"
  using rstrip_lstrip_snoc [of "CHR 0x0A" s]
  by (simp add: strip_def newline_def lstrip_def)

lemma repair_fence_wrap: "repair_text (fence_wrap s) = strip s"
proof -
  have a: "startswith (fence_wrap s) fence_open" by (simp add: startswith_def fence_wrap_def)
  have b: "replace_first fence_open [] (fence_wrap s) = newline @ s @ newline @ fence_close"
    unfolding fence_wrap_def by (rule replace_first_prefix)
  have c: "endswith (newline @ s @ newline @ fence_close) fence_close"
    by (simp add: endswith_def fence_close_def)
  have d: "take (length (newline @ s @ newline @ fence_close) - 3) (newline @ s @ newline @ fence_close) = newline @ s @ newline"
    by (simp add: fence_close_def newline_def)
  show ?thesis
    unfolding repair_text_def Let_def strip_fence_wrap using a b c d
    by (simp add: strip_newlines del: append_assoc)
qed

lemma strip_scenario_json: "strip scenario_json = scenario_json"
  by (simp add: strip_def lstrip_def rstrip_def scenario_json_def isspace_def)

lemma length_fence_open: "length fence_open = 7"
  by (simp add: fence_open_def)

lemma startswith_fence_open: "startswith t fence_open \<Longrightarrow> t = fence_open @ drop 7 t"
  unfolding startswith_def length_fence_open by (metis append_take_drop_id)

lemma replace_first_fence: "startswith t fence_open \<Longrightarrow> replace_first fence_open [] t = drop 7 t"
  using replace_first_prefix [of fence_open "drop 7 t"] startswith_fence_open [of t] by simp

lemma endswith_append:
  assumes "length p \<le> length m" shows "endswith (x @ m) p \<longleftrightarrow> endswith m p"
proof -
  have "length (x @ m) - length p = length x + (length m - length p)" using assms by simp
  then have "drop (length (x @ m) - length p) (x @ m) = drop (length m - length p) m"
    by (simp only: drop_append) simp
  then show ?thesis using assms by (simp add: endswith_def)
qed

lemma endswith_after_fence:
  "endswith (fence_open @ m) fence_close \<longleftrightarrow> endswith m fence_close"
proof (cases "3 \<le> length m")
  case True
  then show ?thesis by (simp add: endswith_append fence_close_def)
next
  case False
  then consider "m = []" | a where "m = [a]" | a b where "m = [a, b]"
    by (cases m; cases "tl m"; cases "tl (tl m)") auto
  then show ?thesis
    by cases (auto simp: endswith_def fence_close_def fence_open_def)
qed

text \<open>
  Claim C5. For a JSON parser that accepts a valid text also without its surrounding
  whitespace, as \<open>json.loads\<close> does, parsing a valid text directly gives the same value
  as wrapping it in the fence markers, repairing and parsing.
\<close>

theorem fence_roundtrip:
  assumes "json_loads c s = Inr v"
    and "\<And>t w. json_loads c t = Inr w \<Longrightarrow> json_loads c (strip t) = Inr w"
  shows "json_loads c (repair_text (fence_wrap s)) = json_loads c s"
  using assms by (simp add: repair_fence_wrap)

text \<open>Scenario 1 of the specification.\<close>

theorem fence_roundtrip_witness:
  "json_loads fenced_collab (repair_text (fence_wrap scenario_json)) = Inr scenario_invoice"
proof -
  have a: "json_loads fenced_collab scenario_json = Inr scenario_invoice"
    by (simp add: fenced_collab_def table_loads_def strip_scenario_json)
  have b: "json_loads fenced_collab (strip t) = Inr w" if "json_loads fenced_collab t = Inr w" for t w
  proof -
    have "table_loads (strip t) = table_loads t" by (simp add: table_loads_def strip_idem)
    then show ?thesis using that by (simp add: fenced_collab_def)
  qed
  show ?thesis using fence_roundtrip [of fenced_collab scenario_json scenario_invoice, OF a b] a by simp
qed

text \<open>
  Claim C6, as the code has it. The opening marker is removed whenever the stripped response
  starts with it, and the closing marker whenever the stripped response ends with it, each
  independently of the other; only a response with neither marker is left as stripped.
\<close>

theorem repair_markers_independent:
  "repair_text r =
     (if startswith (strip r) fence_open \<and> endswith (strip r) fence_close
        then strip (take (length (strip r) - 10) (drop 7 (strip r)))
      else if startswith (strip r) fence_open then strip (drop 7 (strip r))
      else if endswith (strip r) fence_close then strip (take (length (strip r) - 3) (strip r))
      else strip r)"
proof (cases "startswith (strip r) fence_open")
  case True
  have e: "endswith (drop 7 (strip r)) fence_close \<longleftrightarrow> endswith (strip r) fence_close"
    using endswith_after_fence [of "drop 7 (strip r)"] startswith_fence_open [OF True] by simp
  show ?thesis
    using True e by (simp add: repair_text_def Let_def replace_first_fence)
next
  case False
  then show ?thesis by (simp add: repair_text_def Let_def strip_idem)
qed

text \<open>
  Claim C6 as stated fails: a response with the opening marker alone loses it, and so does
  a response with the closing marker alone.
\<close>

theorem repair_counterexample:
  "\<not> endswith (strip (fence_open @ newline @ ''{}'')) fence_close
   \<and> repair_text (fence_open @ newline @ ''{}'') = ''{}''
   \<and> \<not> startswith (strip (''{}'' @ newline @ fence_close)) fence_open
   \<and> repair_text (''{}'' @ newline @ fence_close) = ''{}''"
proof -
  have a: "strip (fence_open @ newline @ ''{}'') = fence_open @ newline @ ''{}''"
    by (simp add: strip_def lstrip_def rstrip_def fence_open_def newline_def isspace_def)
  have b: "strip (''{}'' @ newline @ fence_close) = ''{}'' @ newline @ fence_close"
    by (simp add: strip_def lstrip_def rstrip_def fence_close_def newline_def isspace_def)
  have c: "strip (newline @ ''{}'') = ''{}''" "strip (''{}'' @ newline) = ''{}''"
    by (simp_all add: strip_def lstrip_def rstrip_def newline_def isspace_def)
  have d: "\<not> endswith (fence_open @ newline @ ''{}'') fence_close"
    by (simp add: endswith_def fence_open_def fence_close_def newline_def)
  have e: "\<not> startswith (''{}'' @ newline @ fence_close) fence_open"
    by (simp add: startswith_def fence_open_def fence_close_def newline_def)
  have f: "repair_text (fence_open @ newline @ ''{}'') = ''{}''"
    unfolding repair_text_def a
    by (simp add: startswith_def endswith_def fence_open_def fence_close_def newline_def
        strip_def lstrip_def rstrip_def isspace_def)
  have g: "repair_text (''{}'' @ newline @ fence_close) = ''{}''"
    unfolding repair_text_def b
    by (simp add: startswith_def endswith_def fence_open_def fence_close_def newline_def
        strip_def lstrip_def rstrip_def isspace_def)
  show ?thesis using a b d e f g by simp
qed

section \<open>Extraction\<close>









section \<open>The processing action\<close>

lemma extract_failing:
  "extract_invoice_data failing_collab env_with_key pdf =
     \<lparr>result = Inl (CompletionError ''connection timed out''), shown = [], calls = 1\<rparr>"
  by (simp add: extract_invoice_data_def extract_text_from_pdf_def failing_collab_def one_page_def
      env_with_key_def answer_timeout_def)

text \<open>
  Claim C9, as the code has it. When the extraction returns, with an invoice or with
  \<open>None\<close>, the processing action stores the result and leaves both lists empty. When the
  extraction raises, the action ends with that exception and the session is unchanged.
\<close>

theorem reset_when_extraction_returns:
  "(case result (extract_invoice_data c env pdf_path) of
      Inr v \<Rightarrow>
        final (process_invoice c env pdf_path s) =
          \<lparr>invoice_data = v, person1_items = [], person2_items = []\<rparr>
        \<and> raised (process_invoice c env pdf_path s) = None
    | Inl e \<Rightarrow>
        final (process_invoice c env pdf_path s) = s
        \<and> raised (process_invoice c env pdf_path s) = Some e)"
  by (simp add: process_invoice_def Let_def split: sum.splits)

text \<open>
  Claim C9 as stated fails: when the completion call raises, the allocation of scenario 2
  is still there after the processing action.
\<close>

theorem reset_counterexample:
  "raised (process_invoice failing_collab env_with_key ''next.pdf''
      \<lparr>invoice_data = scenario_invoice, person1_items = [0], person2_items = [1]\<rparr>)
     = Some (CompletionError ''connection timed out'')
   \<and> person1_items (final (process_invoice failing_collab env_with_key ''next.pdf''
        \<lparr>invoice_data = scenario_invoice, person1_items = [0], person2_items = [1]\<rparr>)) = [0]
   \<and> person2_items (final (process_invoice failing_collab env_with_key ''next.pdf''
        \<lparr>invoice_data = scenario_invoice, person1_items = [0], person2_items = [1]\<rparr>)) = [1]"
  by (simp add: process_invoice_def extract_failing)

section \<open>The two lists\<close>

lemma update_items_distinct: "distinct xs \<Longrightarrow> distinct (update_items b i xs)"
  by (simp add: update_items_def)

lemma update_items_member:
  "distinct xs \<Longrightarrow> j \<in> set (update_items b i xs) \<longleftrightarrow> (if j = i then b else j \<in> set xs)"
  by (auto simp: update_items_def)

lemma table_rows_distinct:
  "table_rows c1 c2 i items p1 p2 = (e, q1, q2, shown_rows) \<Longrightarrow> distinct p1 \<Longrightarrow> distinct p2
     \<Longrightarrow> distinct q1 \<and> distinct q2"
proof (induction items arbitrary: i p1 p2 e q1 q2 shown_rows)
  case Nil
  then show ?case by simp
next
  case (Cons item rest)
  show ?case
  proof (cases item)
    case (JObj kvs)
    show ?thesis
    proof (cases "format_2f (dict_get kvs ''total_price'' (JNum 0))")
      case (Inl x)
      with Cons.prems JObj show ?thesis by simp
    next
      case (Inr pr)
      with Cons.prems(1) JObj obtain o' where
        "table_rows c1 c2 (Suc i) rest (update_items (c1 i) i p1) (update_items (c2 i) i p2)
           = (e, q1, q2, o')"
        by (auto split: prod.splits)
      from Cons.IH [OF this] Cons.prems(2,3) show ?thesis
        by (simp add: update_items_distinct)
    qed
  qed (use Cons.prems in auto)
qed

lemma table_rows_member:
  "table_rows c1 c2 i items p1 p2 = (e, q1, q2, shown_rows) \<Longrightarrow> distinct p1 \<Longrightarrow> distinct p2
     \<Longrightarrow> (j \<in> set q1 \<longrightarrow> j \<in> set p1 \<or> (i \<le> j \<and> j < i + length items))
       \<and> (j \<in> set q2 \<longrightarrow> j \<in> set p2 \<or> (i \<le> j \<and> j < i + length items))
       \<and> (e = None \<longrightarrow>
            (j \<in> set q1 \<longleftrightarrow> (if i \<le> j \<and> j < i + length items then c1 j else j \<in> set p1))
          \<and> (j \<in> set q2 \<longleftrightarrow> (if i \<le> j \<and> j < i + length items then c2 j else j \<in> set p2)))"
proof (induction items arbitrary: i p1 p2 e q1 q2 shown_rows)
  case Nil
  then show ?case by auto
next
  case (Cons item rest)
  show ?case
  proof (cases item)
    case (JObj kvs)
    show ?thesis
    proof (cases "format_2f (dict_get kvs ''total_price'' (JNum 0))")
      case (Inl x)
      with Cons.prems JObj show ?thesis by auto
    next
      case (Inr pr)
      with Cons.prems(1) JObj obtain o' where
        "table_rows c1 c2 (Suc i) rest (update_items (c1 i) i p1) (update_items (c2 i) i p2)
           = (e, q1, q2, o')"
        by (auto split: prod.splits)
      from Cons.IH [OF this] Cons.prems(2,3) show ?thesis
        by (auto simp: update_items_distinct update_items_member split: if_splits)
    qed
  qed (use Cons.prems in auto)
qed

lemma valid_init: "valid_allocation init_session"
  by (simp add: valid_allocation_def init_session_def)

lemma valid_process: "valid_allocation s \<Longrightarrow> valid_allocation (final (process_invoice c env pdf s))"
  by (simp add: process_invoice_def Let_def valid_allocation_def split: sum.splits)

lemma split_items_valid:
  assumes "split_items inp items s = (s', shown_items, e)"
    and "distinct (person1_items s)" and "distinct (person2_items s)"
  shows "invoice_data s' = invoice_data s"
    and "distinct (person1_items s')" and "distinct (person2_items s')"
    and "j \<in> set (person1_items s') \<Longrightarrow> j \<in> set (person1_items s) \<or> j < length items"
    and "j \<in> set (person2_items s') \<Longrightarrow> j \<in> set (person2_items s) \<or> j < length items"
    and "e = None \<Longrightarrow> j \<in> set (person1_items s') \<longleftrightarrow>
           (if j < length items then person1_checked inp j else j \<in> set (person1_items s))"
    and "e = None \<Longrightarrow> j \<in> set (person2_items s') \<longleftrightarrow>
           (if j < length items then person2_checked inp j else j \<in> set (person2_items s))"
proof -
  obtain e0 q1 q2 o0 where tr:
    "table_rows (person1_checked inp) (person2_checked inp) 0 items
       (person1_items s) (person2_items s) = (e0, q1, q2, o0)"
    by (metis prod_cases4)
  have s': "s' = s\<lparr>person1_items := q1, person2_items := q2\<rparr>"
    using assms(1) tr by (auto simp: split_items_def Let_def split: option.splits sum.splits)
  have e: "e = None \<Longrightarrow> e0 = None"
    using assms(1) tr by (auto simp: split_items_def Let_def split: option.splits sum.splits)
  note d = table_rows_distinct [OF tr assms(2,3)]
  note m = table_rows_member [OF tr assms(2,3), of j]
  show "invoice_data s' = invoice_data s" by (simp add: s')
  show "distinct (person1_items s')" "distinct (person2_items s')" using d by (simp_all add: s')
  show "j \<in> set (person1_items s') \<Longrightarrow> j \<in> set (person1_items s) \<or> j < length items"
    using m by (simp add: s')
  show "j \<in> set (person2_items s') \<Longrightarrow> j \<in> set (person2_items s) \<or> j < length items"
    using m by (simp add: s')
  show "e = None \<Longrightarrow> j \<in> set (person1_items s') \<longleftrightarrow>
           (if j < length items then person1_checked inp j else j \<in> set (person1_items s))"
    using m e by (simp add: s')
  show "e = None \<Longrightarrow> j \<in> set (person2_items s') \<longleftrightarrow>
           (if j < length items then person2_checked inp j else j \<in> set (person2_items s))"
    using m e by (simp add: s')
qed

lemma display_cases:
  assumes "display inp s = (s', shown_page, e)"
  shows "s' = s \<and> (e = None \<longrightarrow> line_items_of (invoice_data s) = [])
         \<or> (\<exists>shown_items. line_items_of (invoice_data s) \<noteq> []
              \<and> split_items inp (line_items_of (invoice_data s)) s = (s', shown_items, e))"
proof (cases "invoice_data s")
  case (JObj kvs)
  show ?thesis
  proof (cases "map_of kvs ''line_items''")
    case None
    with JObj assms show ?thesis
      by (auto simp: display_def line_items_of_def Let_def split: if_splits)
  next
    case (Some v)
    show ?thesis
    proof (cases v)
      case (JArr items)
      with JObj Some assms show ?thesis
        by (auto simp: display_def line_items_of_def Let_def split: if_splits prod.splits)
    qed (use JObj Some assms in \<open>auto simp: display_def line_items_of_def Let_def split: if_splits\<close>)
  qed
qed (use assms in \<open>auto simp: display_def line_items_of_def split: if_splits\<close>)

lemma display_valid:
  assumes "display inp s = (s', shown_page, e)" and "valid_allocation s"
  shows "valid_allocation s'"
  using display_cases [OF assms(1)]
proof
  assume "s' = s \<and> (e = None \<longrightarrow> line_items_of (invoice_data s) = [])"
  with assms(2) show ?thesis by simp
next
  assume "\<exists>shown_items. line_items_of (invoice_data s) \<noteq> []
              \<and> split_items inp (line_items_of (invoice_data s)) s = (s', shown_items, e)"
  then obtain shown_items where
    sp: "split_items inp (line_items_of (invoice_data s)) s = (s', shown_items, e)" by blast
  have d1: "distinct (person1_items s)" and d2: "distinct (person2_items s)"
    using assms(2) by (simp_all add: valid_allocation_def)
  show ?thesis
    unfolding valid_allocation_def
    using split_items_valid(1-5) [OF sp d1 d2] assms(2)
    by (auto simp: valid_allocation_def)
qed

lemma display_member:
  assumes "display inp s = (s', shown_page, None)" and "valid_allocation s"
  shows "(j \<in> set (person1_items s') \<longleftrightarrow>
            j < length (line_items_of (invoice_data s')) \<and> person1_checked inp j)
       \<and> (j \<in> set (person2_items s') \<longleftrightarrow>
            j < length (line_items_of (invoice_data s')) \<and> person2_checked inp j)"
  using display_cases [OF assms(1)]
proof
  assume "s' = s \<and> (None = None \<longrightarrow> line_items_of (invoice_data s) = [])"
  with assms(2) show ?thesis by (auto simp: valid_allocation_def)
next
  assume "\<exists>shown_items. line_items_of (invoice_data s) \<noteq> []
              \<and> split_items inp (line_items_of (invoice_data s)) s = (s', shown_items, None)"
  then obtain shown_items where
    sp: "split_items inp (line_items_of (invoice_data s)) s = (s', shown_items, None)" by blast
  have d1: "distinct (person1_items s)" and d2: "distinct (person2_items s)"
    using assms(2) by (simp_all add: valid_allocation_def)
  show ?thesis
    using split_items_valid(1) [OF sp d1 d2] split_items_valid(6,7) [OF sp d1 d2 refl, of j] assms(2)
    by (auto simp: valid_allocation_def)
qed

lemma valid_script_run:
  assumes "valid_allocation s" shows "valid_allocation (final (script_run c env inp s))"
proof -
  define r where "r = (case uploaded_file inp of
                 None \<Rightarrow> \<lparr>final = s, out = [], raised = None, llm_calls = 0\<rparr>
               | Some pdf \<Rightarrow>
                   if process_clicked inp then process_invoice c env pdf s
                   else \<lparr>final = s, out = [], raised = None, llm_calls = 0\<rparr>)"
  have vr: "valid_allocation (final r)"
    using assms by (auto simp: r_def valid_process split: option.splits)
  show ?thesis
  proof (cases "raised r")
    case (Some e)
    then show ?thesis using vr by (simp add: script_run_def r_def [symmetric])
  next
    case None
    obtain s' o' e' where d: "display inp (final r) = (s', o', e')" by (metis prod_cases3)
    from display_valid [OF d vr] None d show ?thesis
      by (simp add: script_run_def r_def [symmetric])
  qed
qed

lemma valid_runs: "valid_allocation s \<Longrightarrow> valid_allocation (runs steps s)"
  by (induction steps s rule: runs.induct) (simp_all add: valid_script_run)

lemma extract_fenced:
  "extract_invoice_data fenced_collab env_with_key pdf =
     \<lparr>result = Inr scenario_invoice, shown = [], calls = 1\<rparr>"
  by (simp add: extract_invoice_data_def extract_text_from_pdf_def fenced_collab_def one_page_def
      env_with_key_def answer_fenced_def repair_fence_wrap table_loads_def strip_idem
      strip_scenario_json)

lemma line_items_scenario: "line_items_of scenario_invoice = widget_gadget"
  by (simp add: line_items_of_def scenario_invoice_def widget_gadget_def)

lemma run_press:
  "script_run fenced_collab env_with_key press_process init_session =
     \<lparr>final = \<lparr>invoice_data = scenario_invoice, person1_items = [], person2_items = []\<rparr>,
      out = [Invoice_id (JStr ''123''), Invoice_date (JStr ''2024-01-05''),
             Item_name (JStr ''Widget''), Item_price 100, Item_name (JStr ''Gadget''), Item_price 50,
             Person_totals 0 0, Total_expense 0, Split_amount 0, Perfectly_split],
      raised = None, llm_calls = 1\<rparr>"
  by (simp add: script_run_def press_process_def process_invoice_def extract_fenced init_session_def
      display_def scenario_invoice_def dict_get_def split_items_def update_items_def no_row_def
      sum_prices_def payment_summary_def who_owes_def Let_def)

lemma run_tick_both:
  "script_run fenced_collab env_with_key tick_row0_both
     \<lparr>invoice_data = scenario_invoice, person1_items = [], person2_items = []\<rparr> =
     \<lparr>final = \<lparr>invoice_data = scenario_invoice, person1_items = [0], person2_items = [0]\<rparr>,
      out = [Invoice_id (JStr ''123''), Invoice_date (JStr ''2024-01-05''),
             Item_name (JStr ''Widget''), Item_price 100, Item_name (JStr ''Gadget''), Item_price 50,
             Person_totals 100 100, Total_expense 200, Split_amount 100, Perfectly_split],
      raised = None, llm_calls = 0\<rparr>"
  by (simp add: script_run_def tick_row0_both_def
      display_def scenario_invoice_def dict_get_def split_items_def update_items_def row0_def
      sum_prices_def payment_summary_def who_owes_def Let_def)

lemma run_tick_scenario2:
  "script_run fenced_collab env_with_key tick_row0_row1
     \<lparr>invoice_data = scenario_invoice, person1_items = [], person2_items = []\<rparr> =
     \<lparr>final = \<lparr>invoice_data = scenario_invoice, person1_items = [0], person2_items = [1]\<rparr>,
      out = [Invoice_id (JStr ''123''), Invoice_date (JStr ''2024-01-05''),
             Item_name (JStr ''Widget''), Item_price 100, Item_name (JStr ''Gadget''), Item_price 50,
             Person_totals 100 50, Total_expense 150, Split_amount 75, Owes Person2 Person1 25],
      raised = None, llm_calls = 0\<rparr>"
  by (simp add: script_run_def tick_row0_row1_def
      display_def scenario_invoice_def dict_get_def split_items_def update_items_def row0_def row1_def
      sum_prices_def payment_summary_def who_owes_def Let_def)

text \<open>
  Claim C1, as the code has it. After any sequence of runs and one more run that ends
  without an exception, neither participant's list holds an index twice, and each list
  holds an index exactly when it is a row of the stored invoice whose checkbox for that
  participant is checked. The two lists are updated independently of each other: the
  indices in both are the rows with both checkboxes checked.
\<close>

theorem checkbox_membership:
  assumes "r = script_run c env inp (runs steps init_session)" and "raised r = None"
  shows "distinct (person1_items (final r)) \<and> distinct (person2_items (final r))
       \<and> set (person1_items (final r)) =
           {i. i < length (line_items_of (invoice_data (final r))) \<and> person1_checked inp i}
       \<and> set (person2_items (final r)) =
           {i. i < length (line_items_of (invoice_data (final r))) \<and> person2_checked inp i}
       \<and> set (person1_items (final r)) \<inter> set (person2_items (final r)) =
           {i. i < length (line_items_of (invoice_data (final r)))
               \<and> person1_checked inp i \<and> person2_checked inp i}"
proof -
  let ?s = "runs steps init_session"
  define r0 where "r0 = (case uploaded_file inp of
                 None \<Rightarrow> \<lparr>final = ?s, out = [], raised = None, llm_calls = 0\<rparr>
               | Some pdf \<Rightarrow>
                   if process_clicked inp then process_invoice c env pdf ?s
                   else \<lparr>final = ?s, out = [], raised = None, llm_calls = 0\<rparr>)"
  have vs: "valid_allocation ?s" using valid_init by (simp add: valid_runs)
  have v0: "valid_allocation (final r0)"
    using vs by (auto simp: r0_def valid_process split: option.splits)
  obtain s' o' e' where d: "display inp (final r0) = (s', o', e')" by (metis prod_cases3)
  have n0: "raised r0 = None"
    using assms by (cases "raised r0") (simp_all add: script_run_def r0_def [symmetric])
  then have fr: "final r = s'" and e': "e' = None"
    using assms d by (simp_all add: script_run_def r0_def [symmetric])
  have v': "valid_allocation s'" using display_valid [OF d v0] .
  note dm = display_member [OF d [unfolded e'] v0]
  have m1: "j \<in> set (person1_items s') \<longleftrightarrow>
            j < length (line_items_of (invoice_data s')) \<and> person1_checked inp j" for j
    using dm [of j] by (rule conjunct1)
  have m2: "j \<in> set (person2_items s') \<longleftrightarrow>
            j < length (line_items_of (invoice_data s')) \<and> person2_checked inp j" for j
    using dm [of j] by (rule conjunct2)
  have s1: "set (person1_items s') =
           {i. i < length (line_items_of (invoice_data s')) \<and> person1_checked inp i}"
    by (rule set_eqI) (simp add: m1)
  have s2: "set (person2_items s') =
           {i. i < length (line_items_of (invoice_data s')) \<and> person2_checked inp i}"
    by (rule set_eqI) (simp add: m2)
  have s3: "set (person1_items s') \<inter> set (person2_items s') =
           {i. i < length (line_items_of (invoice_data s'))
               \<and> person1_checked inp i \<and> person2_checked inp i}"
    by (rule set_eqI) (auto simp: m1 m2)
  have d1: "distinct (person1_items s')" and d2: "distinct (person2_items s')"
    using v' by (simp_all add: valid_allocation_def)
  show ?thesis unfolding fr using d1 d2 s1 s2 s3 by (intro conjI)
qed

text \<open>Scenario 2 of the specification: row 0 ticked for the first person, row 1 for the second.\<close>

theorem checkbox_membership_witness:
  "set (person1_items (final (script_run fenced_collab env_with_key tick_row0_row1
          (runs [(fenced_collab, env_with_key, press_process)] init_session)))) = {0}
   \<and> set (person2_items (final (script_run fenced_collab env_with_key tick_row0_row1
          (runs [(fenced_collab, env_with_key, press_process)] init_session)))) = {1}"
proof -
  have r: "runs [(fenced_collab, env_with_key, press_process)] init_session =
             \<lparr>invoice_data = scenario_invoice, person1_items = [], person2_items = []\<rparr>"
    by (simp add: run_press)
  have n: "raised (script_run fenced_collab env_with_key tick_row0_row1
             (runs [(fenced_collab, env_with_key, press_process)] init_session)) = None"
    by (simp add: run_press run_tick_scenario2)
  have c: "person1_checked tick_row0_row1 = row0" "person2_checked tick_row0_row1 = row1"
    by (simp_all add: tick_row0_row1_def)
  have a: "{i. i < 2 \<and> row0 i} = {0}" "{i. i < 2 \<and> row1 i} = {1}"
    by (auto simp: row0_def row1_def)
  show ?thesis
    using checkbox_membership [OF refl n]
    by (simp add: run_press run_tick_scenario2 line_items_scenario widget_gadget_def c a)
qed

text \<open>
  Claim C1 as stated fails: nothing removes an index from the other list. After the invoice
  is processed and both checkboxes of row 0 are ticked, index 0 is in both lists.
\<close>

theorem exclusivity_counterexample:
  "person1_items (runs [(fenced_collab, env_with_key, press_process),
                        (fenced_collab, env_with_key, tick_row0_both)] init_session) = [0]
   \<and> person2_items (runs [(fenced_collab, env_with_key, press_process),
                          (fenced_collab, env_with_key, tick_row0_both)] init_session) = [0]"
  by (simp add: run_press run_tick_both)

lemma format_2f_no_index_error: "format_2f v \<noteq> Inl IndexError"
  by (cases v) auto

lemma table_rows_no_index_error:
  "table_rows c1 c2 i items p1 p2 = (e, q1, q2, shown_rows) \<Longrightarrow> e \<noteq> Some IndexError"
proof (induction items arbitrary: i p1 p2 e q1 q2 shown_rows)
  case Nil
  then show ?case by auto
next
  case (Cons item rest)
  show ?case
  proof (cases item)
    case (JObj kvs)
    show ?thesis
    proof (cases "format_2f (dict_get kvs ''total_price'' (JNum 0))")
      case (Inl x)
      with Cons.prems JObj format_2f_no_index_error [of "dict_get kvs ''total_price'' (JNum 0)"]
      show ?thesis by auto
    next
      case (Inr pr)
      with Cons.prems(1) JObj obtain o' where
        "table_rows c1 c2 (Suc i) rest (update_items (c1 i) i p1) (update_items (c2 i) i p2)
           = (e, q1, q2, o')"
        by (auto split: prod.splits)
      from Cons.IH [OF this] show ?thesis .
    qed
  qed (use Cons.prems in auto)
qed

lemma subscript_no_index_error: "subscript_total_price v \<noteq> Inl IndexError"
  by (cases v) (auto split: option.splits json.splits)

lemma sum_prices_from_no_index_error:
  "\<forall>i\<in>set idxs. i < length items \<Longrightarrow> sum_prices_from acc items idxs \<noteq> Inl IndexError"
proof (induction idxs arbitrary: acc)
  case Nil
  then show ?case by simp
next
  case (Cons i idxs)
  then show ?case
    by (cases "subscript_total_price (items ! i)") (auto simp: subscript_no_index_error)
qed

lemma sum_prices_no_index_error:
  "\<forall>i\<in>set idxs. i < length items \<Longrightarrow> sum_prices items idxs \<noteq> Inl IndexError"
  by (simp add: sum_prices_def sum_prices_from_no_index_error)

lemma split_items_no_index_error:
  assumes "split_items inp items s = (s', shown_items, e)"
    and "distinct (person1_items s)" and "distinct (person2_items s)"
    and "\<forall>i\<in>set (person1_items s) \<union> set (person2_items s). i < length items"
  shows "e \<noteq> Some IndexError"
proof -
  obtain e0 q1 q2 o0 where tr:
    "table_rows (person1_checked inp) (person2_checked inp) 0 items
       (person1_items s) (person2_items s) = (e0, q1, q2, o0)"
    by (metis prod_cases4)
  have e0: "e0 \<noteq> Some IndexError" using tr by (rule table_rows_no_index_error)
  have "j < length items" if "j \<in> set q1" for j
    using table_rows_member [OF tr assms(2,3), of j] that assms(4) by auto
  moreover have "j < length items" if "j \<in> set q2" for j
    using table_rows_member [OF tr assms(2,3), of j] that assms(4) by auto
  ultimately have "sum_prices items q1 \<noteq> Inl IndexError" "sum_prices items q2 \<noteq> Inl IndexError"
    by (simp_all add: sum_prices_no_index_error)
  then show ?thesis
    using assms(1) tr e0
    by (auto simp: split_items_def Let_def split: option.splits sum.splits)
qed

lemma display_no_index_error:
  assumes "display inp s = (s', shown_page, e)" and "valid_allocation s"
  shows "e \<noteq> Some IndexError"
proof (cases "invoice_data s")
  case (JObj kvs)
  show ?thesis
  proof (cases "map_of kvs ''line_items''")
    case None
    with JObj assms show ?thesis
      by (auto simp: display_def Let_def split: if_splits)
  next
    case (Some v)
    show ?thesis
    proof (cases v)
      case (JArr items)
      have li: "line_items_of (invoice_data s) = items"
        using JObj Some JArr by (simp add: line_items_of_def)
      show ?thesis
      proof (cases "items = []")
        case True
        have "display inp s = (s, [Invoice_id (dict_get kvs ''invoice_id'' (JStr ''N/A'')),
                   Invoice_date (dict_get kvs ''date'' (JStr ''N/A''))] @ no_line_items, None)
              \<or> display inp s = (s, [], None)"
          by (simp add: display_def JObj Some JArr True)
        with assms(1) show ?thesis by auto
      next
        case False
        obtain s1 o1 e1 where sp: "split_items inp items s = (s1, o1, e1)" by (metis prod_cases3)
        have "e1 \<noteq> Some IndexError"
          using split_items_no_index_error [OF sp] assms(2) li by (auto simp: valid_allocation_def)
        moreover have "display inp s = (s1, [Invoice_id (dict_get kvs ''invoice_id'' (JStr ''N/A'')),
                   Invoice_date (dict_get kvs ''date'' (JStr ''N/A''))] @ o1, e1)
              \<or> display inp s = (s, [], None)"
          by (simp add: display_def JObj Some JArr False sp)
        ultimately show ?thesis using assms(1) by auto
      qed
    qed (use JObj Some assms in \<open>auto simp: display_def Let_def split: if_splits\<close>)
  qed
qed (use assms in \<open>auto simp: display_def split: if_splits\<close>)

text \<open>
  Claim C10. In the session after any sequence of runs, every index in either list is below
  the number of line items of the stored invoice, so neither sum raises \<open>IndexError\<close>,
  and neither does the next display.
\<close>

theorem indices_in_range:
  assumes "s = runs steps init_session"
  shows "(\<forall>i \<in> set (person1_items s) \<union> set (person2_items s).
            i < length (line_items_of (invoice_data s)))
       \<and> sum_prices (line_items_of (invoice_data s)) (person1_items s) \<noteq> Inl IndexError
       \<and> sum_prices (line_items_of (invoice_data s)) (person2_items s) \<noteq> Inl IndexError
       \<and> snd (snd (display inp s)) \<noteq> Some IndexError"
proof -
  have v: "valid_allocation s" using assms valid_init by (simp add: valid_runs)
  then have r: "\<forall>i \<in> set (person1_items s) \<union> set (person2_items s).
            i < length (line_items_of (invoice_data s))"
    by (simp add: valid_allocation_def)
  obtain s' o' e' where d: "display inp s = (s', o', e')" by (metis prod_cases3)
  show ?thesis
    using r display_no_index_error [OF d v] d by (simp add: sum_prices_no_index_error)
qed

text \<open>The session of scenario 2.\<close>

theorem indices_in_range_witness:
  "person1_items (runs [(fenced_collab, env_with_key, press_process),
                        (fenced_collab, env_with_key, tick_row0_row1)] init_session) = [0]
   \<and> person2_items (runs [(fenced_collab, env_with_key, press_process),
                          (fenced_collab, env_with_key, tick_row0_row1)] init_session) = [1]
   \<and> length (line_items_of (invoice_data
        (runs [(fenced_collab, env_with_key, press_process),
               (fenced_collab, env_with_key, tick_row0_row1)] init_session))) = 2
   \<and> sum_prices widget_gadget [0] \<noteq> Inl IndexError
   \<and> sum_prices widget_gadget [1] \<noteq> Inl IndexError"
  using indices_in_range [OF refl,
      of "[(fenced_collab, env_with_key, press_process),
           (fenced_collab, env_with_key, tick_row0_row1)]" tick_row0_row1]
  by (simp add: run_press run_tick_scenario2 line_items_scenario widget_gadget_def)

section \<open>Totals and settlement\<close>









section \<open>Missing fields\<close>





end
